theory Spec2Isabelle
  imports Complex_Main
begin

section \<open>Risk engine (backend/app/risk\_engine.py)\<close>

text \<open>
  Clause texts are \<open>string\<close>s: lists of 8-bit characters read as the code points
  0..255 of a Python \<open>str\<close>. Python's \<open>float\<close> scores are modelled as \<open>real\<close>
  numbers (binary64 rounding is not part of the model).
\<close>

subsection \<open>The regular expressions of the keyword table\<close>

text \<open>
  The patterns of \<open>RISK_KEYWORDS\<close> use literal text, one non-capturing alternation
  \<open>(?:y|ies)\<close> and one optional character \<open>-?\<close>. \<open>re_match r s\<close> lists what is left
  of \<open>s\<close> after each way of matching \<open>r\<close> at the start of \<open>s\<close>; \<open>re_search\<close> tries
  every start position, as \<open>re.search\<close> does.
\<close>

datatype regex = Lit string | Seq regex regex | Alt regex regex | Opt regex

fun startswith :: "string \<Rightarrow> string \<Rightarrow> bool" where
  "startswith s [] = True"
| "startswith [] (p # ps) = False"
| "startswith (c # cs) (p # ps) = (c = p \<and> startswith cs ps)"

fun re_match :: "regex \<Rightarrow> string \<Rightarrow> string list" where
  "re_match (Lit l) s = (if startswith s l then [drop (length l) s] else [])"
| "re_match (Seq a b) s = concat (map (re_match b) (re_match a s))"
| "re_match (Alt a b) s = re_match a s @ re_match b s"
| "re_match (Opt a) s = re_match a s @ [s]"

fun re_search :: "regex \<Rightarrow> string \<Rightarrow> bool" where
  "re_search r [] = (re_match r [] \<noteq> [])"
| "re_search r (c # cs) = (re_match r (c # cs) \<noteq> [] \<or> re_search r cs)"

definition RISK_KEYWORDS_high :: "regex list" where
  "RISK_KEYWORDS_high =
     [Seq (Lit ''penalt'') (Alt (Lit ''y'') (Lit ''ies'')),
      Lit ''indemnif'',
      Lit ''liabilit'',
      Lit ''arbitration'',
      Lit ''waiv'',
      Lit ''class action waiver'']"

definition RISK_KEYWORDS_medium :: "regex list" where
  "RISK_KEYWORDS_medium =
     [Lit ''early termination fee'',
      Lit ''renewal'',
      Seq (Lit ''auto'') (Seq (Opt (Lit ''-'')) (Lit ''renew'')),
      Lit ''late fee'',
      Lit ''governing law'']"

subsection \<open>\<open>str.lower\<close> on the code points 0..255\<close>

definition lower_char :: "char \<Rightarrow> char" where
  "lower_char c =
     (let n = (of_char c :: nat)
      in if (65 \<le> n \<and> n \<le> 90) \<or> (192 \<le> n \<and> n \<le> 222 \<and> n \<noteq> 215)
         then char_of (n + 32) else c)"

definition lower :: "string \<Rightarrow> string" where
  "lower s = map lower_char s"

subsection \<open>\<open>rule_score_for_clause\<close> and \<open>combined_score\<close>\<close>

definition rule_score_for_clause :: "string \<Rightarrow> real" where
  "rule_score_for_clause text =
     (let score = 0;
          t = lower text;
          score = fold (\<lambda>kw score. if re_search kw t then score + 40 else score)
                    RISK_KEYWORDS_high score;
          score = fold (\<lambda>kw score. if re_search kw t then score + 15 else score)
                    RISK_KEYWORDS_medium score
      in min 100 score)"



text \<open>
  The rule score in the words of the specification: 40 points for every matching
  high-severity pattern, 15 for every matching medium-severity pattern, at most 100.
\<close>

definition rule_score_spec :: "string \<Rightarrow> real" where
  "rule_score_spec text =
     min 100
       (40 * real (length (filter (\<lambda>kw. re_search kw (lower text)) RISK_KEYWORDS_high))
        + 15 * real (length (filter (\<lambda>kw. re_search kw (lower text)) RISK_KEYWORDS_medium)))"

section \<open>JSON values and \<open>json.loads\<close>\<close>

text \<open>
  The values \<open>json.loads\<close> returns. A Python \<open>str\<close> value is a list of code points
  (\<open>\uXXXX\<close> escapes reach beyond the 8-bit characters of the input text), a \<open>list\<close>
  is a list and a \<open>dict\<close> is an association list in insertion order with distinct
  keys. \<open>JNull\<close> is Python's \<open>None\<close>.

  A finite \<open>float\<close> is the decimal number \<open>m * 10 ^ e\<close> its text denotes, kept in the
  normal form where \<open>m\<close> is not a multiple of 10 (zero is \<open>Dec 0 0\<close>), so that equal
  numbers are equal values. Rounding to binary64 and overflow to infinity are not part
  of the model; neither are the interpreter's resource limits (recursion depth, the
  digit limit of \<open>int\<close> conversion).
\<close>

type_synonym ustr = "int list"

datatype pyfloat = Dec int int | PosInf | NegInf | NaN

datatype json =
    JNull
  | JBool bool
  | JInt int
  | JFloat pyfloat
  | JStr ustr
  | JArr "json list"
  | JObj "(ustr \<times> json) list"

datatype exn = JSONDecodeError | ValueError | TypeError | AttributeError | ServiceError

definition ustr :: "string \<Rightarrow> ustr" where
  "ustr s = map of_char s"

function norm_dec :: "int \<Rightarrow> int \<Rightarrow> pyfloat" where
  "norm_dec m e =
     (if m = 0 then Dec 0 0
      else if m mod 10 = 0 then norm_dec (m div 10) (e + 1)
      else Dec m e)"
  by pat_completeness auto
termination
  by (relation "measure (\<lambda>(m, e). nat \<bar>m\<bar>)") auto

subsection \<open>Characters\<close>

definition is_ws :: "char \<Rightarrow> bool" where
  "is_ws c = (c = CHR '' '' \<or> c = CHR 0x09 \<or> c = CHR 0x0A \<or> c = CHR 0x0D)"

definition skip_ws :: "string \<Rightarrow> string" where
  "skip_ws s = dropWhile is_ws s"

definition is_digit :: "char \<Rightarrow> bool" where
  "is_digit c = (48 \<le> (of_char c :: int) \<and> (of_char c :: int) \<le> 57)"

definition digit_val :: "char \<Rightarrow> int" where
  "digit_val c = of_char c - 48"

definition digits_val :: "string \<Rightarrow> int" where
  "digits_val ds = foldl (\<lambda>acc d. 10 * acc + digit_val d) 0 ds"

definition hex_val :: "char \<Rightarrow> int option" where
  "hex_val c =
     (let n = (of_char c :: int)
      in if 48 \<le> n \<and> n \<le> 57 then Some (n - 48)
         else if 97 \<le> n \<and> n \<le> 102 then Some (n - 87)
         else if 65 \<le> n \<and> n \<le> 70 then Some (n - 55)
         else None)"

text \<open>The four hexadecimal digits of a \<open>\uXXXX\<close> escape.\<close>

definition hex4 :: "string \<Rightarrow> int option" where
  "hex4 s =
     (case s of
        a # b # c # d # _ \<Rightarrow>
          (case (hex_val a, hex_val b, hex_val c, hex_val d) of
             (Some x, Some y, Some z, Some w) \<Rightarrow> Some (((x * 16 + y) * 16 + z) * 16 + w)
           | _ \<Rightarrow> None)
      | _ \<Rightarrow> None)"

definition is_high_surrogate :: "int \<Rightarrow> bool" where
  "is_high_surrogate u = (0xD800 \<le> u \<and> u \<le> 0xDBFF)"

definition is_low_surrogate :: "int \<Rightarrow> bool" where
  "is_low_surrogate u = (0xDC00 \<le> u \<and> u \<le> 0xDFFF)"

definition join_surrogates :: "int \<Rightarrow> int \<Rightarrow> int" where
  "join_surrogates hi lo = 0x10000 + ((hi - 0xD800) * 0x400 + (lo - 0xDC00))"

text \<open>
  After a high surrogate escape: the low surrogate of a following \<open>\uXXXX\<close> escape,
  if there is one.
\<close>

definition low_surrogate_escape :: "string \<Rightarrow> int option" where
  "low_surrogate_escape s =
     (case s of
        b # u # r \<Rightarrow>
          (if b = CHR 0x5C \<and> u = CHR ''u'' then
             (case hex4 r of
                Some lo \<Rightarrow> if is_low_surrogate lo then Some lo else None
              | None \<Rightarrow> None)
           else None)
      | _ \<Rightarrow> None)"

definition unescape :: "char \<Rightarrow> int option" where
  "unescape e =
     (if e = CHR 0x22 then Some 0x22
      else if e = CHR 0x5C then Some 0x5C
      else if e = CHR ''/'' then Some 0x2F
      else if e = CHR ''b'' then Some 0x08
      else if e = CHR ''f'' then Some 0x0C
      else if e = CHR ''n'' then Some 0x0A
      else if e = CHR ''r'' then Some 0x0D
      else if e = CHR ''t'' then Some 0x09
      else None)"

subsection \<open>Strings (\<open>scanstring\<close>, strict mode)\<close>

text \<open>\<open>scanstring s\<close> reads a string whose opening quote has been consumed.\<close>

definition cons_char :: "int \<Rightarrow> (ustr \<times> string) option \<Rightarrow> (ustr \<times> string) option" where
  "cons_char u res = (case res of None \<Rightarrow> None | Some (us, rest) \<Rightarrow> Some (u # us, rest))"

fun scanstring :: "string \<Rightarrow> (ustr \<times> string) option" where
  "scanstring [] = None"
| "scanstring (c # cs) =
     (if c = CHR 0x22 then Some ([], cs)
      else if c = CHR 0x5C then
        (case cs of
           [] \<Rightarrow> None
         | e # es \<Rightarrow>
             (if e = CHR ''u'' then
                (case hex4 es of
                   None \<Rightarrow> None
                 | Some u \<Rightarrow>
                     (if is_high_surrogate u then
                        (case low_surrogate_escape (drop 4 es) of
                           Some lo \<Rightarrow> cons_char (join_surrogates u lo) (scanstring (drop 10 es))
                         | None \<Rightarrow> cons_char u (scanstring (drop 4 es)))
                      else cons_char u (scanstring (drop 4 es))))
              else
                (case unescape e of
                   None \<Rightarrow> None
                 | Some u \<Rightarrow> cons_char u (scanstring es))))
      else if (of_char c :: int) \<le> 0x1F then None
      else cons_char (of_char c) (scanstring cs))"

subsection \<open>Numbers\<close>

text \<open>
  The number syntax \<open>-?(0|[1-9][0-9]*)(\.[0-9]+)?([eE][-+]?[0-9]+)?\<close>: a number
  with a fraction or an exponent is a \<open>float\<close>, any other an \<open>int\<close>.
\<close>

definition scan_frac :: "string \<Rightarrow> string \<times> string" where
  "scan_frac s =
     (case s of
        p # d # r \<Rightarrow>
          (if p = CHR ''.'' \<and> is_digit d
           then (takeWhile is_digit (d # r), dropWhile is_digit (d # r))
           else ([], s))
      | _ \<Rightarrow> ([], s))"

definition scan_exp :: "string \<Rightarrow> int option \<times> string" where
  "scan_exp s =
     (case s of
        [] \<Rightarrow> (None, s)
      | x # r \<Rightarrow>
          (if x = CHR ''e'' \<or> x = CHR ''E'' then
             (let (neg, r1) =
                    (case r of
                       [] \<Rightarrow> (False, r)
                     | g # r' \<Rightarrow>
                         if g = CHR ''-'' then (True, r')
                         else if g = CHR ''+'' then (False, r')
                         else (False, r));
                  ds = takeWhile is_digit r1
              in if ds = [] then (None, s)
                 else (Some (if neg then - digits_val ds else digits_val ds),
                       dropWhile is_digit r1))
           else (None, s)))"

definition number_of :: "bool \<Rightarrow> string \<Rightarrow> string \<Rightarrow> int option \<Rightarrow> json" where
  "number_of neg ip fracp ex =
     (if fracp = [] \<and> ex = None then
        JInt (if neg then - digits_val ip else digits_val ip)
      else
        (let m = digits_val (ip @ fracp);
             e = (case ex of None \<Rightarrow> 0 | Some x \<Rightarrow> x) - int (length fracp)
         in JFloat (norm_dec (if neg then - m else m) e)))"

definition scan_tail :: "bool \<Rightarrow> string \<Rightarrow> string \<Rightarrow> json \<times> string" where
  "scan_tail neg ip s =
     (let (fracp, s1) = scan_frac s;
          (ex, s2) = scan_exp s1
      in (number_of neg ip fracp ex, s2))"

definition scan_int :: "bool \<Rightarrow> string \<Rightarrow> (json \<times> string) option" where
  "scan_int neg s =
     (case s of
        [] \<Rightarrow> None
      | d # r \<Rightarrow>
          (if is_digit d \<and> d \<noteq> CHR ''0''
           then Some (scan_tail neg (d # takeWhile is_digit r) (dropWhile is_digit r))
           else if d = CHR ''0'' then Some (scan_tail neg [d] r)
           else None))"

definition match_number :: "string \<Rightarrow> (json \<times> string) option" where
  "match_number s =
     (case s of
        [] \<Rightarrow> None
      | c # r \<Rightarrow> if c = CHR ''-'' then scan_int True r else scan_int False s)"

subsection \<open>Values\<close>

text \<open>\<open>d[k] = v\<close> on a \<open>dict\<close>: a key that is present keeps its place.\<close>

fun dict_set :: "('k \<times> 'v) list \<Rightarrow> 'k \<Rightarrow> 'v \<Rightarrow> ('k \<times> 'v) list" where
  "dict_set [] k v = [(k, v)]"
| "dict_set ((k', v') # d) k v =
     (if k' = k then (k', v) # d else (k', v') # dict_set d k v)"

definition dict_of_pairs :: "('k \<times> 'v) list \<Rightarrow> ('k \<times> 'v) list" where
  "dict_of_pairs ps = fold (\<lambda>(k, v) d. dict_set d k v) ps []"

text \<open>
  The scanner is recursive on the nesting of the text. The first argument bounds the
  number of calls; \<open>OutOfFuel\<close> tells a spent bound from a syntax error \<open>Err\<close>.
  \<open>parse_items\<close> reads the elements of an array up to its closing bracket and
  \<open>parse_pairs\<close> the members of an object up to its closing brace.
\<close>

datatype 'a parse = Ok 'a | Err | OutOfFuel

fun parse_value :: "nat \<Rightarrow> string \<Rightarrow> (json \<times> string) parse"
  and parse_items :: "nat \<Rightarrow> string \<Rightarrow> (json list \<times> string) parse"
  and parse_pairs :: "nat \<Rightarrow> string \<Rightarrow> ((ustr \<times> json) list \<times> string) parse"
where
  "parse_value 0 s = OutOfFuel"
| "parse_value (Suc n) [] = Err"
| "parse_value (Suc n) (c # cs) =
     (if c = CHR 0x22 then
        (case scanstring cs of None \<Rightarrow> Err | Some (k, r) \<Rightarrow> Ok (JStr k, r))
      else if c = CHR ''{'' then
        (case skip_ws cs of
           [] \<Rightarrow> Err
         | d # ds \<Rightarrow>
             if d = CHR ''}'' then Ok (JObj [], ds)
             else (case parse_pairs n (d # ds) of
                     Ok (ps, r) \<Rightarrow> Ok (JObj (dict_of_pairs ps), r)
                   | Err \<Rightarrow> Err
                   | OutOfFuel \<Rightarrow> OutOfFuel))
      else if c = CHR ''['' then
        (case skip_ws cs of
           [] \<Rightarrow> Err
         | d # ds \<Rightarrow>
             if d = CHR '']'' then Ok (JArr [], ds)
             else (case parse_items n (d # ds) of
                     Ok (vs, r) \<Rightarrow> Ok (JArr vs, r)
                   | Err \<Rightarrow> Err
                   | OutOfFuel \<Rightarrow> OutOfFuel))
      else if startswith (c # cs) ''null'' then Ok (JNull, drop 4 (c # cs))
      else if startswith (c # cs) ''true'' then Ok (JBool True, drop 4 (c # cs))
      else if startswith (c # cs) ''false'' then Ok (JBool False, drop 5 (c # cs))
      else if startswith (c # cs) ''NaN'' then Ok (JFloat NaN, drop 3 (c # cs))
      else if startswith (c # cs) ''Infinity'' then Ok (JFloat PosInf, drop 8 (c # cs))
      else if startswith (c # cs) ''-Infinity'' then Ok (JFloat NegInf, drop 9 (c # cs))
      else (case match_number (c # cs) of None \<Rightarrow> Err | Some res \<Rightarrow> Ok res))"
| "parse_items 0 s = OutOfFuel"
| "parse_items (Suc n) s =
     (case parse_value n s of
        Err \<Rightarrow> Err
      | OutOfFuel \<Rightarrow> OutOfFuel
      | Ok (v, r) \<Rightarrow>
          (case skip_ws r of
             [] \<Rightarrow> Err
           | d # ds \<Rightarrow>
               if d = CHR '']'' then Ok ([v], ds)
               else if d = CHR '','' then
                 (case parse_items n (skip_ws ds) of
                    Ok (vs, r') \<Rightarrow> Ok (v # vs, r')
                  | Err \<Rightarrow> Err
                  | OutOfFuel \<Rightarrow> OutOfFuel)
               else Err))"
| "parse_pairs 0 s = OutOfFuel"
| "parse_pairs (Suc n) s =
     (case s of
        [] \<Rightarrow> Err
      | q # cs \<Rightarrow>
          if q \<noteq> CHR 0x22 then Err
          else
            (case scanstring cs of
               None \<Rightarrow> Err
             | Some (k, r) \<Rightarrow>
                 (case skip_ws r of
                    [] \<Rightarrow> Err
                  | d # ds \<Rightarrow>
                      if d \<noteq> CHR '':'' then Err
                      else
                        (case parse_value n (skip_ws ds) of
                           Err \<Rightarrow> Err
                         | OutOfFuel \<Rightarrow> OutOfFuel
                         | Ok (v, r2) \<Rightarrow>
                             (case skip_ws r2 of
                                [] \<Rightarrow> Err
                              | x # xs \<Rightarrow>
                                  if x = CHR ''}'' then Ok ([(k, v)], xs)
                                  else if x = CHR '','' then
                                    (case parse_pairs n (skip_ws xs) of
                                       Ok (ps, r3) \<Rightarrow> Ok ((k, v) # ps, r3)
                                     | Err \<Rightarrow> Err
                                     | OutOfFuel \<Rightarrow> OutOfFuel)
                                  else Err)))))"

text \<open>
  \<open>json.loads\<close>: one value, white space around it, nothing else. The bound
  \<open>Suc (2 * length s)\<close> is never spent (lemma \<open>parse_fuel\<close> below).
\<close>

definition json_loads :: "string \<Rightarrow> exn + json" where
  "json_loads s =
     (case parse_value (Suc (2 * length s)) (skip_ws s) of
        Ok (v, r) \<Rightarrow> if skip_ws r = [] then Inr v else Inl JSONDecodeError
      | Err \<Rightarrow> Inl JSONDecodeError
      | OutOfFuel \<Rightarrow> Inl JSONDecodeError)"

section \<open>The extractor (backend/app/utils.py)\<close>

text \<open>\<open>str.index\<close> and \<open>str.rindex\<close> for a one-character argument.\<close>

fun find_first :: "char \<Rightarrow> string \<Rightarrow> nat option" where
  "find_first x [] = None"
| "find_first x (c # cs) =
     (if c = x then Some 0 else map_option Suc (find_first x cs))"

fun find_last :: "char \<Rightarrow> string \<Rightarrow> nat option" where
  "find_last x [] = None"
| "find_last x (c # cs) =
     (case find_last x cs of
        Some i \<Rightarrow> Some (Suc i)
      | None \<Rightarrow> if c = x then Some 0 else None)"

definition str_index :: "string \<Rightarrow> char \<Rightarrow> exn + nat" where
  "str_index s x = (case find_first x s of None \<Rightarrow> Inl ValueError | Some i \<Rightarrow> Inr i)"

definition str_rindex :: "string \<Rightarrow> char \<Rightarrow> exn + nat" where
  "str_rindex s x = (case find_last x s of None \<Rightarrow> Inl ValueError | Some i \<Rightarrow> Inr i)"

text \<open>The slice \<open>s[i:j]\<close> for indices within the string; it is empty when \<open>j \<le> i\<close>.\<close>

definition slice :: "string \<Rightarrow> nat \<Rightarrow> nat \<Rightarrow> string" where
  "slice s i j = take (j - i) (drop i s)"

text \<open>
  \<open>safe_parse_json\<close>. Both handlers are \<open>except Exception\<close> and catch every error
  of their \<open>try\<close> block; the inner one returns \<open>None\<close>. Logging is left out.
\<close>

definition safe_parse_json :: "string \<Rightarrow> exn + json" where
  "safe_parse_json text =
     (case json_loads text of
        Inr v \<Rightarrow> Inr v
      | Inl _ \<Rightarrow>
          (case (case str_index text (CHR ''{'') of
                   Inl e \<Rightarrow> Inl e
                 | Inr start \<Rightarrow>
                     (case str_rindex text (CHR ''}'') of
                        Inl e \<Rightarrow> Inl e
                      | Inr i \<Rightarrow> json_loads (slice text start (i + 1)))) of
             Inr v \<Rightarrow> Inr v
           | Inl _ \<Rightarrow> Inr JNull))"

section \<open>The summarization pipeline (backend/app/rag\_client.py)\<close>

subsection \<open>Python operations on parsed values\<close>




fun is_dict :: "json \<Rightarrow> bool" where
  "is_dict (JObj d) = True"
| "is_dict v = False"





text \<open>The number a finite \<open>float\<close> stands for, and \<open>x >= k\<close> for an integer literal.\<close>

definition float_val :: "int \<Rightarrow> int \<Rightarrow> real" where
  "float_val m e =
     (if 0 \<le> e then real_of_int m * 10 ^ nat e else real_of_int m / 10 ^ nat (- e))"

fun float_ge :: "pyfloat \<Rightarrow> int \<Rightarrow> bool" where
  "float_ge (Dec m e) k = (real_of_int k \<le> float_val m e)"
| "float_ge PosInf k = True"
| "float_ge NegInf k = False"
| "float_ge NaN k = False"

subsection \<open>\<open>summarize_document\<close>\<close>

record clause_out =
  original :: json
  simplified :: json
  risk :: string
  score :: pyfloat
  provenance :: json


text \<open>
  The expression \<open>"high" if llm_score >= 66 else "medium" if llm_score >= 33 else "low"\<close>.
\<close>

definition risk_label :: "pyfloat \<Rightarrow> string" where
  "risk_label llm_score =
     (if float_ge llm_score 66 then ''high''
      else if float_ge llm_score 33 then ''medium''
      else ''low'')"






section \<open>Properties of the risk engine\<close>

lemma fold_add_matches:
  "fold (\<lambda>kw score. if P kw then score + k else score) kws (acc :: real)
     = acc + k * real (length (filter P kws))"
  by (induction kws arbitrary: acc) (simp_all add: algebra_simps)

lemma rule_score_refines_spec: "rule_score_for_clause text = rule_score_spec text"
  by (simp add: rule_score_for_clause_def rule_score_spec_def fold_add_matches Let_def)

lemma rule_score_bounds: "0 \<le> rule_score_for_clause text \<and> rule_score_for_clause text \<le> 100"
  by (simp add: rule_score_refines_spec rule_score_spec_def)

lemma rule_score_indemnification:
  "rule_score_for_clause
     ''This agreement includes an indemnification clause and binding arbitration.'' = 80"
  by code_simp

lemma rule_score_weather:
  "rule_score_for_clause ''This is a plain sentence about weather.'' = 0"
  by code_simp

text \<open>
  Claim C5. For every clause text, \<open>rule_score_for_clause\<close> is 40 points per matching
  high-severity pattern plus 15 points per matching medium-severity pattern of the
  lower-cased text, cut off at 100; it lies in [0,100] and is a function of the text
  alone; the indemnification-and-arbitration sentence scores at least 80 and the weather
  sentence scores 0.
\<close>

theorem C5_rule_score:
  "rule_score_for_clause t =
     min 100
       (40 * real (length (filter (\<lambda>kw. re_search kw (lower t)) RISK_KEYWORDS_high))
        + 15 * real (length (filter (\<lambda>kw. re_search kw (lower t)) RISK_KEYWORDS_medium)))
   \<and> 0 \<le> rule_score_for_clause t \<and> rule_score_for_clause t \<le> 100
   \<and> rule_score_for_clause
        ''This agreement includes an indemnification clause and binding arbitration.'' \<ge> 80
   \<and> rule_score_for_clause ''This is a plain sentence about weather.'' = 0"
  using rule_score_refines_spec [of t] rule_score_bounds [of t]
  by (simp add: rule_score_spec_def rule_score_indemnification rule_score_weather)




section \<open>The scanner: consumption and the recursion bound\<close>

lemma skip_ws_length: "length (skip_ws s) \<le> length s"
  by (simp add: skip_ws_def length_dropWhile_le)

lemma cons_char_Some:
  "cons_char u res = Some (k, r) \<Longrightarrow> \<exists>k'. res = Some (k', r) \<and> k = u # k'"
  by (auto simp: cons_char_def split: option.splits)

lemma scanstring_shorter: "scanstring s = Some (k, r) \<Longrightarrow> length r < length s"
proof (induction "length s" arbitrary: s k r rule: less_induct)
  case less
  have IH: "\<And>s' k' r'. scanstring s' = Some (k', r') \<Longrightarrow> length s' < length s
              \<Longrightarrow> length r' < length s'"
    using less.hyps by blast
  show ?case
  proof (cases s)
    case Nil
    with less.prems show ?thesis by simp
  next
    case (Cons c cs)
    with less.prems show ?thesis
      by (auto split: if_splits list.splits option.splits dest!: cons_char_Some dest: IH)
  qed
qed

lemma scan_frac_length: "scan_frac s = (f, r) \<Longrightarrow> length r \<le> length s"
  by (auto simp: scan_frac_def split: list.splits if_splits
      intro: le_trans [OF length_dropWhile_le])

lemma scan_exp_length: "scan_exp s = (x, r) \<Longrightarrow> length r \<le> length s"
  by (auto simp: scan_exp_def Let_def split: list.splits if_splits prod.splits
      intro: le_trans [OF length_dropWhile_le])

lemma scan_tail_length: "scan_tail neg ip s = (v, r) \<Longrightarrow> length r \<le> length s"
  by (auto simp: scan_tail_def split: prod.splits
      dest!: scan_frac_length scan_exp_length)

lemma scan_int_shorter: "scan_int neg s = Some (v, r) \<Longrightarrow> length r < length s"
  by (auto simp: scan_int_def split: list.splits if_splits
      dest!: scan_tail_length intro: le_less_trans le_trans [OF _ length_dropWhile_le])

lemma match_number_shorter: "match_number s = Some (v, r) \<Longrightarrow> length r < length s"
  by (auto simp: match_number_def split: list.splits if_splits dest!: scan_int_shorter)

lemma skip_ws_Cons_length: "skip_ws s = d # ds \<Longrightarrow> length ds < length s"
  using skip_ws_length [of s] by simp

lemma skip_ws_less: "length r < length (skip_ws s) \<Longrightarrow> length r < length s"
  using skip_ws_length [of s] by simp

lemma parse_shorter_all:
  "(\<forall>s v r. parse_value n s = Ok (v, r) \<longrightarrow> length r < length s) \<and>
   (\<forall>s vs r. parse_items n s = Ok (vs, r) \<longrightarrow> length r < length s) \<and>
   (\<forall>s ps r. parse_pairs n s = Ok (ps, r) \<longrightarrow> length r < length s)"
proof (induction n)
  case 0
  show ?case by simp
next
  case (Suc n)
  have IHv: "\<And>s v r. parse_value n s = Ok (v, r) \<Longrightarrow> length r < length s"
    and IHi: "\<And>s vs r. parse_items n s = Ok (vs, r) \<Longrightarrow> length r < length s"
    and IHp: "\<And>s ps r. parse_pairs n s = Ok (ps, r) \<Longrightarrow> length r < length s"
    using Suc.IH by blast+
  have v: "length r < length s" if "parse_value (Suc n) s = Ok (v, r)" for s v r
  proof (cases s)
    case Nil
    with that show ?thesis by simp
  next
    case (Cons c cs)
    with that show ?thesis
      by (auto split: if_splits list.splits parse.splits option.splits prod.splits
          dest!: skip_ws_Cons_length scanstring_shorter match_number_shorter IHi IHp)
  qed
  have i: "length r < length s" if "parse_items (Suc n) s = Ok (vs, r)" for s vs r
    using that
    by (auto split: if_splits list.splits parse.splits option.splits prod.splits
        dest!: skip_ws_Cons_length IHv IHi skip_ws_less)
  have p: "length r < length s" if "parse_pairs (Suc n) s = Ok (ps, r)" for s ps r
    using that
    by (auto split: if_splits list.splits parse.splits option.splits prod.splits
        dest!: skip_ws_Cons_length scanstring_shorter IHv IHp skip_ws_less)
  show ?case using v i p by blast
qed

lemma parse_value_shorter: "parse_value n s = Ok (v, r) \<Longrightarrow> length r < length s"
  using parse_shorter_all by blast

lemma parse_value_OutOfFuel:
  "parse_value (Suc n) s = OutOfFuel \<Longrightarrow>
     \<exists>c cs d ds. s = c # cs \<and> skip_ws cs = d # ds \<and>
       (parse_pairs n (d # ds) = OutOfFuel \<or> parse_items n (d # ds) = OutOfFuel)"
  by (cases s) (auto split: if_splits list.splits parse.splits option.splits prod.splits)

lemma parse_items_OutOfFuel:
  "parse_items (Suc n) s = OutOfFuel \<Longrightarrow>
     parse_value n s = OutOfFuel \<or>
     (\<exists>v r d ds. parse_value n s = Ok (v, r) \<and> skip_ws r = d # ds \<and>
        parse_items n (skip_ws ds) = OutOfFuel)"
  by (auto split: if_splits list.splits parse.splits option.splits prod.splits)

lemma parse_pairs_OutOfFuel:
  "parse_pairs (Suc n) s = OutOfFuel \<Longrightarrow>
     \<exists>q cs k r d ds. s = q # cs \<and> scanstring cs = Some (k, r) \<and> skip_ws r = d # ds \<and>
       (parse_value n (skip_ws ds) = OutOfFuel \<or>
        (\<exists>v r2 x xs. parse_value n (skip_ws ds) = Ok (v, r2) \<and> skip_ws r2 = x # xs \<and>
           parse_pairs n (skip_ws xs) = OutOfFuel))"
  by (auto split: if_splits list.splits parse.splits option.splits prod.splits)


lemma parse_fuel_all:
  "(\<forall>s. 2 * length s < n \<longrightarrow> parse_value n s \<noteq> OutOfFuel) \<and>
   (\<forall>s. 2 * length s + 1 < n \<longrightarrow> parse_items n s \<noteq> OutOfFuel) \<and>
   (\<forall>s. 2 * length s + 1 < n \<longrightarrow> parse_pairs n s \<noteq> OutOfFuel)"
proof (induction n)
  case 0
  show ?case by simp
next
  case (Suc n)
  have IHv: "\<And>s. parse_value n s = OutOfFuel \<Longrightarrow> n \<le> 2 * length s"
    and IHi: "\<And>s. parse_items n s = OutOfFuel \<Longrightarrow> n \<le> 2 * length s + 1"
    and IHp: "\<And>s. parse_pairs n s = OutOfFuel \<Longrightarrow> n \<le> 2 * length s + 1"
    using Suc.IH by (meson not_less)+
  have v: "parse_value (Suc n) s \<noteq> OutOfFuel" if "2 * length s < Suc n" for s
  proof
    assume "parse_value (Suc n) s = OutOfFuel"
    then obtain c cs d ds where s: "s = c # cs" and ws: "skip_ws cs = d # ds"
      and *: "parse_pairs n (d # ds) = OutOfFuel \<or> parse_items n (d # ds) = OutOfFuel"
      using parse_value_OutOfFuel by blast
    from * have "n \<le> 2 * length (d # ds) + 1" using IHi IHp by blast
    moreover have "length (d # ds) \<le> length cs" using skip_ws_length [of cs] ws by simp
    ultimately show False using that s by simp
  qed
  have i: "parse_items (Suc n) s \<noteq> OutOfFuel" if "2 * length s + 1 < Suc n" for s
  proof
    assume "parse_items (Suc n) s = OutOfFuel"
    then consider "parse_value n s = OutOfFuel"
      | v r d ds where "parse_value n s = Ok (v, r)" "skip_ws r = d # ds"
          "parse_items n (skip_ws ds) = OutOfFuel"
      using parse_items_OutOfFuel by blast
    then show False
    proof cases
      case 1
      then show ?thesis using IHv [of s] that by simp
    next
      case 2
      have "length r < length s" using 2(1) by (rule parse_value_shorter)
      moreover have "length ds < length r" using 2(2) by (rule skip_ws_Cons_length)
      moreover have "length (skip_ws ds) \<le> length ds" by (rule skip_ws_length)
      moreover have "n \<le> 2 * length (skip_ws ds) + 1" using 2(3) by (rule IHi)
      ultimately show ?thesis using that by simp
    qed
  qed
  have p: "parse_pairs (Suc n) s \<noteq> OutOfFuel" if "2 * length s + 1 < Suc n" for s
  proof
    assume "parse_pairs (Suc n) s = OutOfFuel"
    from parse_pairs_OutOfFuel [OF this] obtain q cs k r d ds where s: "s = q # cs" and k: "scanstring cs = Some (k, r)"
      and ws: "skip_ws r = d # ds"
      and *: "parse_value n (skip_ws ds) = OutOfFuel \<or>
        (\<exists>v r2 x xs. parse_value n (skip_ws ds) = Ok (v, r2) \<and> skip_ws r2 = x # xs \<and>
           parse_pairs n (skip_ws xs) = OutOfFuel)"
      by (elim exE conjE) (rule that; assumption)
    have l1: "length r < length cs" using k by (rule scanstring_shorter)
    have l2: "length ds < length r" using ws by (rule skip_ws_Cons_length)
    have l3: "length (skip_ws ds) \<le> length ds" by (rule skip_ws_length)
    from * show False
    proof
      assume "parse_value n (skip_ws ds) = OutOfFuel"
      then have "n \<le> 2 * length (skip_ws ds)" by (rule IHv)
      then show False using l1 l2 l3 that s by simp
    next
      assume "\<exists>v r2 x xs. parse_value n (skip_ws ds) = Ok (v, r2) \<and> skip_ws r2 = x # xs \<and>
           parse_pairs n (skip_ws xs) = OutOfFuel"
      then obtain v r2 x xs where a: "parse_value n (skip_ws ds) = Ok (v, r2)"
        and b: "skip_ws r2 = x # xs" and c: "parse_pairs n (skip_ws xs) = OutOfFuel"
        by blast
      have "length r2 < length (skip_ws ds)" using a by (rule parse_value_shorter)
      moreover have "length xs < length r2" using b by (rule skip_ws_Cons_length)
      moreover have "length (skip_ws xs) \<le> length xs" by (rule skip_ws_length)
      moreover have "n \<le> 2 * length (skip_ws xs) + 1" using c by (rule IHp)
      ultimately show False using l1 l2 l3 that s by simp
    qed
  qed
  show ?case using v i p by blast
qed

lemma parse_value_fuel: "2 * length s < n \<Longrightarrow> parse_value n s \<noteq> OutOfFuel"
  using parse_fuel_all by blast

section \<open>Properties of the extractor\<close>

lemma json_loads_total:
  "json_loads s = Inl JSONDecodeError \<or> (\<exists>v. json_loads s = Inr v)"
  by (auto simp: json_loads_def split: parse.splits)

lemma json_loads_fuel:
  "parse_value (Suc (2 * length s)) (skip_ws s) \<noteq> OutOfFuel"
proof (rule parse_value_fuel)
  have "length (skip_ws s) \<le> length s" by (rule skip_ws_length)
  then show "2 * length (skip_ws s) < Suc (2 * length s)" by simp
qed

lemma json_loads_brace:
  "json_loads (CHR ''{'' # cs) = Inr v \<Longrightarrow> is_dict v"
  by (auto simp: json_loads_def skip_ws_def is_ws_def
      split: parse.splits list.splits if_splits)

lemma find_first_drop:
  "find_first x s = Some i \<Longrightarrow> drop i s = x # drop (Suc i) s"
  by (induction s arbitrary: i) (auto split: if_splits)

lemma find_first_iff:
  "find_first x s = Some i \<longleftrightarrow> i < length s \<and> s ! i = x \<and> (\<forall>j<i. s ! j \<noteq> x)"
proof (induction s arbitrary: i)
  case Nil
  show ?case by simp
next
  case (Cons c cs)
  show ?case
  proof (cases "c = x")
    case True
    then show ?thesis by (cases i) auto
  next
    case False
    show ?thesis
    proof (cases i)
      case 0
      with False show ?thesis by auto
    next
      case (Suc k)
      have "(\<forall>j<Suc k. (c # cs) ! j \<noteq> x) \<longleftrightarrow> (\<forall>j<k. cs ! j \<noteq> x)"
        using False by (auto simp: less_Suc_eq_0_disj)
      with False Suc Cons.IH [of k] show ?thesis by auto
    qed
  qed
qed

lemma find_first_None: "find_first x s = None \<longleftrightarrow> x \<notin> set s"
  by (induction s) auto

lemma find_last_None: "find_last x s = None \<longleftrightarrow> x \<notin> set s"
  by (induction s) (auto split: option.splits)

lemma find_last_iff:
  "find_last x s = Some i \<longleftrightarrow>
     i < length s \<and> s ! i = x \<and> (\<forall>j. i < j \<and> j < length s \<longrightarrow> s ! j \<noteq> x)"
proof (induction s arbitrary: i)
  case Nil
  show ?case by simp
next
  case (Cons c cs)
  show ?case
  proof (cases "find_last x cs")
    case None
    then have nx: "x \<notin> set cs" by (simp add: find_last_None)
    then have *: "\<And>j. j < length cs \<Longrightarrow> cs ! j \<noteq> x" by (metis nth_mem)
    show ?thesis
    proof (cases i)
      case 0
      with None * show ?thesis by (auto simp: nth_Cons split: nat.splits)
    next
      case (Suc k)
      with None * show ?thesis by (auto split: if_splits)
    qed
  next
    case (Some k)
    then have k: "k < length cs" "cs ! k = x" "\<forall>j. k < j \<and> j < length cs \<longrightarrow> cs ! j \<noteq> x"
      using Cons.IH [of k] by auto
    show ?thesis
    proof (cases i)
      case 0
      have "\<not> (\<forall>j. 0 < j \<and> j < length (c # cs) \<longrightarrow> (c # cs) ! j \<noteq> x)"
        using k(1,2) by (auto intro!: exI [of _ "Suc k"])
      with Some 0 show ?thesis by auto
    next
      case (Suc i')
      have "(\<forall>j. Suc i' < j \<and> j < length (c # cs) \<longrightarrow> (c # cs) ! j \<noteq> x)
              \<longleftrightarrow> (\<forall>j. i' < j \<and> j < length cs \<longrightarrow> cs ! j \<noteq> x)"
        by (auto simp: nth_Cons split: nat.splits)
      with Some Suc Cons.IH [of i'] show ?thesis by auto
    qed
  qed
qed

lemma slice_brace:
  assumes "find_first (CHR ''{'') text = Some i" and "json_loads (slice text i j) = Inr v"
  shows "is_dict v"
proof (cases "j - i")
  case 0
  then have "slice text i j = []" by (simp add: slice_def)
  moreover have "json_loads [] = Inl JSONDecodeError" by (simp add: json_loads_def skip_ws_def)
  ultimately show ?thesis using assms(2) by simp
next
  case (Suc k)
  have "slice text i j = CHR ''{'' # take k (drop (Suc i) text)"
    using find_first_drop [OF assms(1)] Suc by (simp add: slice_def)
  with assms(2) show ?thesis by (auto dest: json_loads_brace)
qed

lemma safe_parse_json_fallback:
  "json_loads text = Inl e \<Longrightarrow>
   safe_parse_json text =
     (case (find_first (CHR ''{'') text, find_last (CHR ''}'') text) of
        (Some i, Some j) \<Rightarrow>
          (case json_loads (slice text i (j + 1)) of Inr v \<Rightarrow> Inr v | Inl _ \<Rightarrow> Inr JNull)
      | _ \<Rightarrow> Inr JNull)"
  by (auto simp: safe_parse_json_def str_index_def str_rindex_def
      split: sum.splits option.splits)

lemma safe_parse_json_cases:
  "\<exists>v. safe_parse_json text = Inr v \<and>
     (json_loads text = Inr v \<or> (\<exists>e. json_loads text = Inl e) \<and> (v = JNull \<or> is_dict v))"
proof (cases "json_loads text")
  case (Inr v)
  then show ?thesis by (simp add: safe_parse_json_def)
next
  case (Inl e)
  show ?thesis
    using Inl safe_parse_json_fallback [OF Inl]
    by (auto split: option.splits sum.splits dest: slice_brace)
qed

section \<open>Properties of the pipeline\<close>










lemma risk_label_finite:
  "risk_label (Dec m e) =
     (if 66 \<le> float_val m e then ''high''
      else if 33 \<le> float_val m e then ''medium''
      else ''low'')"
  by (simp add: risk_label_def)

lemma risk_label_range: "risk_label s \<in> {''high'', ''medium'', ''low''}"
  by (simp add: risk_label_def)

lemma risk_label_examples:
  "risk_label (Dec 66 0) = ''high''" "risk_label (Dec 65999 (- 3)) = ''medium''"
  "risk_label (Dec 33 0) = ''medium''" "risk_label (Dec 32999 (- 3)) = ''low''"
  "float_val 66 0 = 66" "float_val 65999 (- 3) = 65.999"
  "float_val 33 0 = 33" "float_val 32999 (- 3) = 32.999"
  by (simp_all add: risk_label_def float_val_def)

section \<open>The claims\<close>

text \<open>
  Claim C2 as stated (a successful result is always a mapping) fails: the text
  \<open>[1,2]\<close> parses as a whole and the list is returned.
\<close>

theorem C2_counterexample:
  "safe_parse_json ''[1,2]'' = Inr (JArr [JInt 1, JInt 2])
   \<and> \<not> is_dict (JArr [JInt 1, JInt 2]) \<and> JArr [JInt 1, JInt 2] \<noteq> JNull"
  by code_simp

text \<open>
  Claim C2, as the code has it. For every input text \<open>safe_parse_json\<close> returns a
  value: the value \<open>json.loads\<close> gives for the whole text, whatever its JSON type, or,
  when the whole text does not parse, either \<open>None\<close> or a \<open>dict\<close>. Only a result
  of the brace-span fallback is certain to be a mapping.
\<close>

theorem C2_result_shape:
  "\<exists>v. safe_parse_json text = Inr v \<and>
     (json_loads text = Inr v \<or> (\<exists>e. json_loads text = Inl e) \<and> (v = JNull \<or> is_dict v))"
  by (rule safe_parse_json_cases)

lemma extract_sure:
  \<open>safe_parse_json ''Sure! Here is the JSON: {"a": 1, "b": [1,2]} Hope that helps.''
     = Inr (JObj [(ustr ''a'', JInt 1), (ustr ''b'', JArr [JInt 1, JInt 2])])\<close>
  by code_simp

lemma extract_no_json: "safe_parse_json ''no json here at all'' = Inr JNull"
  by code_simp

lemma extract_truncated: \<open>safe_parse_json ''{"a": 1'' = Inr JNull\<close>
  by code_simp

text \<open>
  Claim C3. When the whole text does not parse, \<open>safe_parse_json\<close> parses the slice
  from the first opening brace to the last closing brace (both included) and returns its
  value, which is then a \<open>dict\<close>; it returns \<open>None\<close> when a brace is missing or the
  slice does not parse. The three examples of the specification are evaluated.
\<close>

theorem C3_fallback_span:
  \<open>(\<forall>e. json_loads text = Inl e \<longrightarrow>
      safe_parse_json text =
        (case (find_first (CHR ''{'') text, find_last (CHR ''}'') text) of
           (Some i, Some j) \<Rightarrow>
             (case json_loads (slice text i (j + 1)) of
                Inr v \<Rightarrow> Inr v
              | Inl _ \<Rightarrow> Inr JNull)
         | _ \<Rightarrow> Inr JNull))
   \<and> (\<forall>e i j v. json_loads text = Inl e \<longrightarrow> find_first (CHR ''{'') text = Some i \<longrightarrow>
          find_last (CHR ''}'') text = Some j \<longrightarrow> json_loads (slice text i (j + 1)) = Inr v \<longrightarrow>
          safe_parse_json text = Inr v \<and> is_dict v)
   \<and> safe_parse_json ''Sure! Here is the JSON: {"a": 1, "b": [1,2]} Hope that helps.''
       = Inr (JObj [(ustr ''a'', JInt 1), (ustr ''b'', JArr [JInt 1, JInt 2])])
   \<and> safe_parse_json ''no json here at all'' = Inr JNull
   \<and> safe_parse_json ''{"a": 1'' = Inr JNull\<close>
proof -
  have a: "safe_parse_json text = Inr v \<and> is_dict v"
    if "json_loads text = Inl e" "find_first (CHR ''{'') text = Some i"
      "find_last (CHR ''}'') text = Some j" "json_loads (slice text i (j + 1)) = Inr v"
    for e i j v
    using safe_parse_json_fallback [OF that(1)] that(2,3,4) slice_brace [OF that(2,4)]
    by simp
  show ?thesis
    using safe_parse_json_fallback [of "text"] a extract_sure extract_no_json extract_truncated
    by blast
qed

text \<open>
  Claim C3 at the text \<open>x}{"a":1}{y\<close>: the first opening brace is at index 2, the last
  closing brace at index 8, and the slice between them parses.
\<close>

theorem C3_fallback_span_witness:
  \<open>json_loads ''x}{"a":1}{y'' = Inl JSONDecodeError
   \<and> find_first (CHR ''{'') ''x}{"a":1}{y'' = Some 2
   \<and> find_last (CHR ''}'') ''x}{"a":1}{y'' = Some 8
   \<and> slice ''x}{"a":1}{y'' 2 (8 + 1) = ''{"a":1}''
   \<and> json_loads (slice ''x}{"a":1}{y'' 2 (8 + 1)) = Inr (JObj [(ustr ''a'', JInt 1)])
   \<and> safe_parse_json ''x}{"a":1}{y'' = Inr (JObj [(ustr ''a'', JInt 1)])
   \<and> is_dict (JObj [(ustr ''a'', JInt 1)])\<close>
proof -
  have 1: \<open>json_loads ''x}{"a":1}{y'' = Inl JSONDecodeError\<close> by code_simp
  have 2: \<open>find_first (CHR ''{'') ''x}{"a":1}{y'' = Some 2\<close> by code_simp
  have 3: \<open>find_last (CHR ''}'') ''x}{"a":1}{y'' = Some 8\<close> by code_simp
  have 4: \<open>slice ''x}{"a":1}{y'' 2 (8 + 1) = ''{"a":1}''\<close> by code_simp
  have 5: \<open>json_loads (slice ''x}{"a":1}{y'' 2 (8 + 1)) = Inr (JObj [(ustr ''a'', JInt 1)])\<close>
    by code_simp
  from C3_fallback_span [of \<open>''x}{"a":1}{y''\<close>] 1 2 3 5
  have \<open>safe_parse_json ''x}{"a":1}{y'' = Inr (JObj [(ustr ''a'', JInt 1)])
        \<and> is_dict (JObj [(ustr ''a'', JInt 1)])\<close>
    by blast
  with 1 2 3 4 5 show ?thesis by blast
qed

text \<open>
  Claim C4. For every input text \<open>safe_parse_json\<close> returns a value and raises
  nothing: both handlers catch every exception of \<open>json.loads\<close>, \<open>index\<close> and
  \<open>rindex\<close>. The scanner's recursion bound is never spent, so the value is that of the
  unbounded scanner.
\<close>

theorem C4_never_raises:
  "(\<exists>v. safe_parse_json text = Inr v)
   \<and> parse_value (Suc (2 * length text)) (skip_ws text) \<noteq> OutOfFuel"
  using safe_parse_json_cases [of "text"] json_loads_fuel [of "text"] by blast

text \<open>
  Claim C10. The text \<open>null\<close> parses (to \<open>None\<close>) and \<open>safe_parse_json\<close> returns
  \<open>None\<close> for it, the same value it returns for a text that does not parse.
\<close>

theorem C10_null_is_failure:
  "json_loads ''null'' = Inr JNull
   \<and> safe_parse_json ''null'' = Inr JNull
   \<and> json_loads ''no json here at all'' = Inl JSONDecodeError
   \<and> safe_parse_json ''no json here at all'' = Inr JNull"
  by code_simp

text \<open>
  Claim C7. The risk category is a total function of the score: \<open>high\<close> from 66,
  \<open>medium\<close> from 33 and below 66, \<open>low\<close> below 33, with 66, 65.999, 33 and 32.999
  falling as the specification says. (An infinite score or \<open>nan\<close> gets a category too.)
\<close>

theorem C7_risk_label:
  "risk_label (Dec m e) =
     (if 66 \<le> float_val m e then ''high''
      else if 33 \<le> float_val m e then ''medium''
      else ''low'')
   \<and> risk_label s \<in> {''high'', ''medium'', ''low''}
   \<and> float_val 66 0 = 66 \<and> risk_label (Dec 66 0) = ''high''
   \<and> float_val 65999 (- 3) = 65.999 \<and> risk_label (Dec 65999 (- 3)) = ''medium''
   \<and> float_val 33 0 = 33 \<and> risk_label (Dec 33 0) = ''medium''
   \<and> float_val 32999 (- 3) = 32.999 \<and> risk_label (Dec 32999 (- 3)) = ''low''"
  using risk_label_finite [of m e] risk_label_range [of s] risk_label_examples
  by simp










end
